theory Spec2Isabelle
  imports Main "HOL-Library.Word"
begin

unbundle bit_operations_syntax

section \<open>Data model of db/dbformat.h\<close>

text \<open>
  A \<open>Slice\<close> and a \<open>std::string\<close> are modelled by their contents, a list of bytes.
  \<open>uint64_t\<close> is \<open>64 word\<close>, \<open>uint8_t\<close> is \<open>8 word\<close>; \<open>size_t\<close> lengths are
  \<open>nat\<close>, and every place where the source subtracts from a length is guarded in the
  model by the check the source makes (or, where the source makes none, by an explicit
  \<open>None\<close> for the call that has no defined result).
\<close>

type_synonym u8 = "8 word"
type_synonym u32 = "32 word"
type_synonym u64 = "64 word"
type_synonym bytes = "u8 list"

text \<open>
  \<open>enum ValueType { kTypeDeletion = 0x0, kTypeValue = 0x1 }\<close>. An object of the enum
  type is stored as its integer value, and \<open>ParseInternalKey\<close> writes
  \<open>static_cast<ValueType>(c)\<close> for an arbitrary byte \<open>c\<close> before it checks the byte;
  so a field of type \<open>ValueType\<close> is modelled as the byte it holds, and the two
  enumerators as the constants 0 and 1.
\<close>

type_synonym ValueType = u8

definition kTypeDeletion :: ValueType where
  "kTypeDeletion = 0"

definition kTypeValue :: ValueType where
  "kTypeValue = 1"

definition kValueTypeForSeek :: ValueType where
  "kValueTypeForSeek = kTypeValue"

type_synonym SequenceNumber = u64

definition kMaxSequenceNumber :: SequenceNumber where
  "kMaxSequenceNumber = push_bit 56 1 - 1"

type_synonym ValidTime = u64

record ParsedInternalKey =
  user_key :: bytes
  sequence :: SequenceNumber
  type :: ValueType

text \<open>
  \<open>struct ParsedMVInternalKey\<close> has the same three fields followed by \<open>valid_time\<close>.
\<close>

record ParsedMVInternalKey = ParsedInternalKey +
  valid_time :: ValidTime

definition InternalKeyEncodingLength :: "ParsedInternalKey \<Rightarrow> nat" where
  "InternalKeyEncodingLength key = length (user_key key) + 8"

definition MVInternalKeyEncodingLength :: "ParsedMVInternalKey \<Rightarrow> nat" where
  "MVInternalKeyEncodingLength key = length (user_key key) + 16"

section \<open>Fixed-width and variable-width integer coding (util/coding.h)\<close>

text \<open>
  Modelled from the spec: \<open>util/coding.h\<close> is not among the sources. The spec fixes the
  tag as a "fixed 8-byte" integer and its first concrete example names it "the 8-byte
  little-endian integer"; \<open>EncodeFixed64\<close> therefore writes the least significant byte
  first and \<open>DecodeFixed64\<close> reads the eight bytes at the given position back.
\<close>

fun EncodeFixed :: "nat \<Rightarrow> u64 \<Rightarrow> bytes" where
  "EncodeFixed 0 v = []"
| "EncodeFixed (Suc n) v = ucast v # EncodeFixed n (drop_bit 8 v)"

fun DecodeFixed :: "bytes \<Rightarrow> u64" where
  "DecodeFixed [] = 0"
| "DecodeFixed (b # bs) = ucast b OR push_bit 8 (DecodeFixed bs)"

definition EncodeFixed64 :: "u64 \<Rightarrow> bytes" where
  "EncodeFixed64 v = EncodeFixed 8 v"

definition DecodeFixed64 :: "bytes \<Rightarrow> u64" where
  "DecodeFixed64 ptr = DecodeFixed (take 8 ptr)"

text \<open>
  Modelled from the spec: \<open>EncodeVarint32\<close> of \<open>util/coding.h\<close> is not among the
  sources. The spec names the length prefix \<open>varint32(len)\<close>: seven bits per byte, least
  significant group first, the top bit of a byte set when another byte follows.
\<close>

definition EncodeVarint32 :: "u32 \<Rightarrow> bytes" where
  "EncodeVarint32 v =
     (if v < push_bit 7 1 then [ucast v]
      else if v < push_bit 14 1 then [ucast (v OR 128), ucast (drop_bit 7 v)]
      else if v < push_bit 21 1 then
        [ucast (v OR 128), ucast (drop_bit 7 v OR 128), ucast (drop_bit 14 v)]
      else if v < push_bit 28 1 then
        [ucast (v OR 128), ucast (drop_bit 7 v OR 128), ucast (drop_bit 14 v OR 128),
         ucast (drop_bit 21 v)]
      else
        [ucast (v OR 128), ucast (drop_bit 7 v OR 128), ucast (drop_bit 14 v OR 128),
         ucast (drop_bit 21 v OR 128), ucast (drop_bit 28 v)])"

section \<open>Key codec\<close>

text \<open>
  Modelled from the spec: \<open>AppendInternalKey\<close>, \<open>AppendMVInternalKey\<close> and the packing
  of the tag are declared in the header and defined in \<open>db/dbformat.cc\<close>, which is not
  among the sources. The spec: Encode "appends user_key, then the 8-byte tag
  (sequence << 8) | type, then (MV only) the 8-byte valid time, to an output buffer",
  never truncating what the buffer holds.
\<close>

definition PackSequenceAndType :: "SequenceNumber \<Rightarrow> ValueType \<Rightarrow> u64" where
  "PackSequenceAndType seq t = push_bit 8 seq OR ucast t"

definition AppendInternalKey :: "bytes \<Rightarrow> ParsedInternalKey \<Rightarrow> bytes" where
  "AppendInternalKey result key =
     result @ user_key key @ EncodeFixed64 (PackSequenceAndType (sequence key) (type key))"

definition AppendMVInternalKey :: "bytes \<Rightarrow> ParsedMVInternalKey \<Rightarrow> bytes" where
  "AppendMVInternalKey result key =
     result @ user_key key @ EncodeFixed64 (PackSequenceAndType (sequence key) (type key))
       @ EncodeFixed64 (valid_time key)"

text \<open>
  \<open>ParseInternalKey\<close> and \<open>ParseMVInternalKey\<close>, from the header. The output parameter
  \<open>*result\<close> is passed in and returned next to the boolean; the three (four)
  assignments are made in the source's order.
\<close>

definition ParseInternalKey :: "bytes \<Rightarrow> ParsedInternalKey \<Rightarrow> bool \<times> ParsedInternalKey" where
  "ParseInternalKey internal_key result =
     (let n = length internal_key in
      if n < 8 then (False, result)
      else
        let num = DecodeFixed64 (drop (n - 8) internal_key);
            c = (ucast (num AND 0xff) :: u8);
            result = result\<lparr>sequence := drop_bit 8 num\<rparr>;
            result = result\<lparr>type := c\<rparr>;
            result = result\<lparr>user_key := take (n - 8) internal_key\<rparr>
        in (c \<le> kTypeValue, result))"

definition ParseMVInternalKey ::
  "bytes \<Rightarrow> ParsedMVInternalKey \<Rightarrow> bool \<times> ParsedMVInternalKey" where
  "ParseMVInternalKey mv_internal_key result =
     (let n = length mv_internal_key in
      if n < 16 then (False, result)
      else
        let num = DecodeFixed64 (drop (n - 16) mv_internal_key);
            c = (ucast (num AND 0xff) :: u8);
            result = result\<lparr>sequence := drop_bit 8 num\<rparr>;
            result = result\<lparr>type := c\<rparr>;
            result = result\<lparr>user_key := take (n - 16) mv_internal_key\<rparr>;
            result = result\<lparr>valid_time := DecodeFixed64 (drop (n - 8) mv_internal_key)\<rparr>
        in (c \<le> kTypeValue, result))"

text \<open>
  \<open>ExtractUserKey\<close> and \<open>MVExtractUserKey\<close> assert the minimum length and then cut the
  suffix off; a failed assertion is \<open>None\<close>.
\<close>

definition ExtractUserKey :: "bytes \<Rightarrow> bytes option" where
  "ExtractUserKey internal_key =
     (if length internal_key \<ge> 8
      then Some (take (length internal_key - 8) internal_key) else None)"

definition MVExtractUserKey :: "bytes \<Rightarrow> bytes option" where
  "MVExtractUserKey mv_internal_key =
     (if length mv_internal_key \<ge> 16
      then Some (take (length mv_internal_key - 16) mv_internal_key) else None)"

text \<open>The type byte and the sequence number carried by an 8-byte tag.\<close>

definition tag_type :: "u64 \<Rightarrow> u8" where
  "tag_type num = ucast (num AND 0xff)"

definition tag_sequence :: "u64 \<Rightarrow> SequenceNumber" where
  "tag_sequence num = drop_bit 8 num"

section \<open>Owning key types\<close>

text \<open>
  \<open>class InternalKey\<close> owns one \<open>std::string rep_\<close> (the field
  \<open>rep\<close> here: a field name cannot end in an underscore). Each mutating method takes the
  object and returns the updated object, next to the method's return value.

  The constructor \<open>InternalKey(user_key, s, t)\<close> and \<open>SetFrom\<close> call
  \<open>AppendInternalKey\<close> on the (emptied) buffer.

  \<open>DecodeFromMV\<close> computes \<open>s.size() - 8\<close> in \<open>size_t\<close> with no check: below eight
  bytes the difference wraps around to a length far beyond the input, and the copy has
  no defined result; that call is \<open>None\<close>.
\<close>

record InternalKey =
  rep :: bytes

definition InternalKey_empty :: InternalKey where
  "InternalKey_empty = \<lparr>rep = []\<rparr>"

definition InternalKey_ctor :: "bytes \<Rightarrow> SequenceNumber \<Rightarrow> ValueType \<Rightarrow> InternalKey" where
  "InternalKey_ctor u s t =
     \<lparr>rep = AppendInternalKey [] \<lparr>user_key = u, sequence = s, type = t\<rparr>\<rparr>"

definition InternalKey_DecodeFrom :: "bytes \<Rightarrow> InternalKey \<Rightarrow> bool \<times> InternalKey" where
  "InternalKey_DecodeFrom s k = (let k = k\<lparr>rep := s\<rparr> in (rep k \<noteq> [], k))"

definition InternalKey_DecodeFromMV ::
  "bytes \<Rightarrow> InternalKey \<Rightarrow> (bool \<times> InternalKey) option" where
  "InternalKey_DecodeFromMV s k =
     (if length s < 8 then None
      else let k = k\<lparr>rep := take (length s - 8) s\<rparr> in Some (rep k \<noteq> [], k))"

definition InternalKey_Encode :: "InternalKey \<Rightarrow> bytes option" where
  "InternalKey_Encode k = (if rep k \<noteq> [] then Some (rep k) else None)"

definition InternalKey_user_key :: "InternalKey \<Rightarrow> bytes option" where
  "InternalKey_user_key k = ExtractUserKey (rep k)"

definition InternalKey_SetFrom :: "ParsedInternalKey \<Rightarrow> InternalKey \<Rightarrow> InternalKey" where
  "InternalKey_SetFrom p k =
     (let k = k\<lparr>rep := []\<rparr> in k\<lparr>rep := AppendInternalKey (rep k) p\<rparr>)"

definition InternalKey_Clear :: "InternalKey \<Rightarrow> InternalKey" where
  "InternalKey_Clear k = k\<lparr>rep := []\<rparr>"

text \<open>\<open>class MVInternalKey\<close>: the same buffer, the multi-version codec, no \<open>DecodeFromMV\<close>.\<close>

record MVInternalKey =
  mv_rep :: bytes

definition MVInternalKey_empty :: MVInternalKey where
  "MVInternalKey_empty = \<lparr>mv_rep = []\<rparr>"

definition MVInternalKey_ctor ::
  "bytes \<Rightarrow> SequenceNumber \<Rightarrow> ValueType \<Rightarrow> ValidTime \<Rightarrow> MVInternalKey" where
  "MVInternalKey_ctor u s t vt =
     \<lparr>mv_rep =
        AppendMVInternalKey [] \<lparr>user_key = u, sequence = s, type = t, valid_time = vt\<rparr>\<rparr>"

definition MVInternalKey_DecodeFrom :: "bytes \<Rightarrow> MVInternalKey \<Rightarrow> bool \<times> MVInternalKey" where
  "MVInternalKey_DecodeFrom s k = (let k = k\<lparr>mv_rep := s\<rparr> in (mv_rep k \<noteq> [], k))"

definition MVInternalKey_Encode :: "MVInternalKey \<Rightarrow> bytes option" where
  "MVInternalKey_Encode k = (if mv_rep k \<noteq> [] then Some (mv_rep k) else None)"

definition MVInternalKey_user_key :: "MVInternalKey \<Rightarrow> bytes option" where
  "MVInternalKey_user_key k = MVExtractUserKey (mv_rep k)"

definition MVInternalKey_SetFrom ::
  "ParsedMVInternalKey \<Rightarrow> MVInternalKey \<Rightarrow> MVInternalKey" where
  "MVInternalKey_SetFrom p k =
     (let k = k\<lparr>mv_rep := []\<rparr> in k\<lparr>mv_rep := AppendMVInternalKey (mv_rep k) p\<rparr>)"

definition MVInternalKey_Clear :: "MVInternalKey \<Rightarrow> MVInternalKey" where
  "MVInternalKey_Clear k = k\<lparr>mv_rep := []\<rparr>"

text \<open>
  Sequences of mutating calls on one object. A sequence has a result only while every
  call in it has one.
\<close>

datatype InternalKey_op =
  OpDecodeFrom bytes
| OpDecodeFromMV bytes
| OpSetFrom ParsedInternalKey
| OpClear

fun InternalKey_step :: "InternalKey_op \<Rightarrow> InternalKey \<Rightarrow> InternalKey option" where
  "InternalKey_step (OpDecodeFrom s) k = Some (snd (InternalKey_DecodeFrom s k))"
| "InternalKey_step (OpDecodeFromMV s) k = map_option snd (InternalKey_DecodeFromMV s k)"
| "InternalKey_step (OpSetFrom p) k = Some (InternalKey_SetFrom p k)"
| "InternalKey_step OpClear k = Some (InternalKey_Clear k)"

fun InternalKey_run :: "InternalKey_op list \<Rightarrow> InternalKey \<Rightarrow> InternalKey option" where
  "InternalKey_run [] k = Some k"
| "InternalKey_run (op # ops) k =
     (case InternalKey_step op k of None \<Rightarrow> None | Some k' \<Rightarrow> InternalKey_run ops k')"

datatype MVInternalKey_op =
  MVOpDecodeFrom bytes
| MVOpSetFrom ParsedMVInternalKey
| MVOpClear

fun MVInternalKey_step :: "MVInternalKey_op \<Rightarrow> MVInternalKey \<Rightarrow> MVInternalKey" where
  "MVInternalKey_step (MVOpDecodeFrom s) k = snd (MVInternalKey_DecodeFrom s k)"
| "MVInternalKey_step (MVOpSetFrom p) k = MVInternalKey_SetFrom p k"
| "MVInternalKey_step MVOpClear k = MVInternalKey_Clear k"

fun MVInternalKey_run :: "MVInternalKey_op list \<Rightarrow> MVInternalKey \<Rightarrow> MVInternalKey" where
  "MVInternalKey_run [] k = k"
| "MVInternalKey_run (op # ops) k = MVInternalKey_run ops (MVInternalKey_step op k)"

text \<open>
  The invariant the spec states for an owned buffer: empty, or a well-formed encoded key
  of at least the minimum suffix length. A byte string is a well-formed encoded key when
  the codec's decode accepts it (which includes the length check).
\<close>

definition well_formed_internal_key :: "bytes \<Rightarrow> bool" where
  "well_formed_internal_key b =
     fst (ParseInternalKey b \<lparr>user_key = [], sequence = 0, type = 0\<rparr>)"

definition well_formed_mv_internal_key :: "bytes \<Rightarrow> bool" where
  "well_formed_mv_internal_key b =
     fst (ParseMVInternalKey b \<lparr>user_key = [], sequence = 0, type = 0, valid_time = 0\<rparr>)"

definition InternalKey_invariant :: "InternalKey \<Rightarrow> bool" where
  "InternalKey_invariant k =
     (rep k = [] \<or> (8 \<le> length (rep k) \<and> well_formed_internal_key (rep k)))"

definition MVInternalKey_invariant :: "MVInternalKey \<Rightarrow> bool" where
  "MVInternalKey_invariant k =
     (mv_rep k = [] \<or> (16 \<le> length (mv_rep k) \<and> well_formed_mv_internal_key (mv_rep k)))"

text \<open>
  The arguments under which a call keeps the invariant: \<open>DecodeFrom\<close> stores its
  argument as it is, \<open>DecodeFromMV\<close> its argument without the last eight bytes, and
  \<open>SetFrom\<close> encodes a parsed key whose type is one of the two enumerators.
\<close>

fun InternalKey_op_ok :: "InternalKey_op \<Rightarrow> bool" where
  "InternalKey_op_ok (OpDecodeFrom s) = (s = [] \<or> well_formed_internal_key s)"
| "InternalKey_op_ok (OpDecodeFromMV s) = (length s = 8 \<or> well_formed_mv_internal_key s)"
| "InternalKey_op_ok (OpSetFrom p) = (type p \<le> kTypeValue)"
| "InternalKey_op_ok OpClear = True"

fun MVInternalKey_op_ok :: "MVInternalKey_op \<Rightarrow> bool" where
  "MVInternalKey_op_ok (MVOpDecodeFrom s) = (s = [] \<or> well_formed_mv_internal_key s)"
| "MVInternalKey_op_ok (MVOpSetFrom p) = (type p \<le> kTypeValue)"
| "MVInternalKey_op_ok MVOpClear = True"

section \<open>Key comparator\<close>

text \<open>
  Modelled from the spec: \<open>InternalKeyComparator::Compare(const Slice&, const Slice&)\<close>
  is declared in the header and defined in \<open>db/dbformat.cc\<close>, which is not among the
  sources. The spec: strip the fixed suffix of both operands to get each user key;
  compare the user keys with the injected comparator and return a nonzero result; on
  equal user keys compare the two 8-byte tags numerically descending. The spec leaves
  the effect of the \<open>multi_version\<close> flag open; the model is the comparator built by the
  one-argument constructor, which holds \<open>user_comparator_\<close> alone. An operand shorter
  than the suffix has no user key (\<open>ExtractUserKey\<close> asserts the length): \<open>None\<close>.
\<close>

definition InternalKeyComparator_Compare ::
  "(bytes \<Rightarrow> bytes \<Rightarrow> int) \<Rightarrow> bytes \<Rightarrow> bytes \<Rightarrow> int option" where
  "InternalKeyComparator_Compare user_comparator akey bkey =
     (case ExtractUserKey akey of
        None \<Rightarrow> None
      | Some ua \<Rightarrow>
         (case ExtractUserKey bkey of
            None \<Rightarrow> None
          | Some ub \<Rightarrow>
              let r = user_comparator ua ub in
              if r \<noteq> 0 then Some r
              else
                let anum = DecodeFixed64 (drop (length akey - 8) akey);
                    bnum = DecodeFixed64 (drop (length bkey - 8) bkey)
                in Some (if anum > bnum then - 1 else if anum < bnum then 1 else 0)))"

text \<open>
  The overload on owning keys is inline in the header: it compares the two \<open>Encode()\<close>
  views, and \<open>Encode\<close> asserts that the buffer is not empty.
\<close>

definition InternalKeyComparator_Compare_keys ::
  "(bytes \<Rightarrow> bytes \<Rightarrow> int) \<Rightarrow> InternalKey \<Rightarrow> InternalKey \<Rightarrow> int option" where
  "InternalKeyComparator_Compare_keys user_comparator a b =
     (case InternalKey_Encode a of
        None \<Rightarrow> None
      | Some akey \<Rightarrow>
         (case InternalKey_Encode b of
            None \<Rightarrow> None
          | Some bkey \<Rightarrow> InternalKeyComparator_Compare user_comparator akey bkey))"

section \<open>Filter adapter\<close>





section \<open>Lookup keys\<close>

text \<open>
  A \<open>LookupKey\<close> holds three pointers into one character array. The array is \<open>mem\<close>,
  a pointer is an offset into it, and \<open>Slice(p, n)\<close> is the \<open>n\<close> bytes at offset \<open>p\<close>.
  The fields \<open>start_\<close>, \<open>kstart_\<close> and \<open>end_\<close> are \<open>start\<close>, \<open>kstart\<close> and
  \<open>end_ptr\<close> here. The three views are the header's.
\<close>

definition Slice :: "bytes \<Rightarrow> nat \<Rightarrow> nat \<Rightarrow> bytes" where
  "Slice m p n = take n (drop p m)"

record LookupKey =
  mem :: bytes
  start :: nat
  kstart :: nat
  end_ptr :: nat

definition LookupKey_memtable_key :: "LookupKey \<Rightarrow> bytes" where
  "LookupKey_memtable_key k = Slice (mem k) (start k) (end_ptr k - start k)"

definition LookupKey_internal_key :: "LookupKey \<Rightarrow> bytes" where
  "LookupKey_internal_key k = Slice (mem k) (kstart k) (end_ptr k - kstart k)"

definition LookupKey_user_key :: "LookupKey \<Rightarrow> bytes" where
  "LookupKey_user_key k = Slice (mem k) (kstart k) (end_ptr k - kstart k - 8)"

text \<open>
  Modelled from the spec: the constructor \<open>LookupKey(user_key, sequence)\<close> is declared in
  the header and defined in \<open>db/dbformat.cc\<close>, which is not among the sources. The
  spec: the buffer is \<open>varint32(len(internal_key_bytes))\<close> followed by the encoded
  internal key; the header's comment places \<open>start_\<close> at the length prefix, \<open>kstart_\<close>
  at the user key and \<open>end_\<close> behind the tag. A probe key is built from a user key and a
  sequence only; its tag carries the seek type, which the spec reserves for "a synthetic
  key that sorts before all real entries for a given user key at a given sequence".

  The spec: construction "computes the total required length, writes directly into a
  small fixed-size inline buffer when the total fits" and "falls back to a dynamically
  sized buffer otherwise". The inline buffer is the header's \<open>char space_[200]\<close>. Neither
  storage is initialised: \<open>space i\<close> is the byte the inline array holds at index \<open>i\<close>
  before construction, and \<open>heap\<close> is what the dynamically sized buffer holds behind
  the bytes that are written. The constructor writes the key at the front of the storage
  and leaves the bytes behind \<open>end_\<close> as they were.
\<close>

definition space_size :: nat where
  "space_size = 200"

definition LookupKey_ctor ::
  "(nat \<Rightarrow> u8) \<Rightarrow> bytes \<Rightarrow> bytes \<Rightarrow> SequenceNumber \<Rightarrow> LookupKey" where
  "LookupKey_ctor space heap u s =
     (let usize = length u;
          prefix = EncodeVarint32 (of_nat (usize + 8));
          key = prefix @ u @ EncodeFixed64 (PackSequenceAndType s kValueTypeForSeek);
          needed = length key;
          behind = (if needed \<le> space_size then map space [needed..<space_size] else heap)
      in \<lparr>mem = key @ behind, start = 0, kstart = length prefix, end_ptr = needed\<rparr>)"

text \<open>\<open>class MVLookupKey\<close>: the same three pointers, the views of the header.\<close>

record MVLookupKey =
  mv_mem :: bytes
  mv_start :: nat
  mv_kstart :: nat
  mv_end_ptr :: nat

definition MVLookupKey_memtable_key :: "MVLookupKey \<Rightarrow> bytes" where
  "MVLookupKey_memtable_key k = Slice (mv_mem k) (mv_start k) (mv_end_ptr k - mv_start k)"

definition MVLookupKey_internal_key :: "MVLookupKey \<Rightarrow> bytes" where
  "MVLookupKey_internal_key k = Slice (mv_mem k) (mv_kstart k) (mv_end_ptr k - mv_kstart k)"

definition MVLookupKey_user_key :: "MVLookupKey \<Rightarrow> bytes" where
  "MVLookupKey_user_key k =
     Slice (mv_mem k) (mv_kstart k) (mv_end_ptr k - mv_kstart k - 16)"

definition MVLookupKey_valid_time :: "MVLookupKey \<Rightarrow> ValidTime" where
  "MVLookupKey_valid_time k = DecodeFixed64 (drop (mv_end_ptr k - 8) (mv_mem k))"

text \<open>
  Modelled from the spec: the constructor \<open>MVLookupKey(user_key, sequence, t)\<close> is
  declared in the header and defined in \<open>db/dbformat.cc\<close>, which is not among the
  sources. The spec: the length prefix is followed by the encoded multi-version
  internal key, user key, tag and valid time. The storage is chosen and left
  uninitialised behind \<open>end_\<close> as for \<open>LookupKey\<close>.
\<close>

definition MVLookupKey_ctor ::
  "(nat \<Rightarrow> u8) \<Rightarrow> bytes \<Rightarrow> bytes \<Rightarrow> SequenceNumber \<Rightarrow> ValidTime \<Rightarrow> MVLookupKey" where
  "MVLookupKey_ctor space heap u s t =
     (let usize = length u;
          prefix = EncodeVarint32 (of_nat (usize + 16));
          key = prefix @ u @ EncodeFixed64 (PackSequenceAndType s kValueTypeForSeek)
                  @ EncodeFixed64 t;
          needed = length key;
          behind = (if needed \<le> space_size then map space [needed..<space_size] else heap)
      in \<lparr>mv_mem = key @ behind, mv_start = 0, mv_kstart = length prefix,
          mv_end_ptr = needed\<rparr>)"

section \<open>Facts about the integer coding\<close>

lemma length_EncodeFixed: "length (EncodeFixed n v) = n"
  by (induction n arbitrary: v) simp_all

lemma length_EncodeFixed64: "length (EncodeFixed64 v) = 8"
  by (simp add: EncodeFixed64_def length_EncodeFixed)

lemma DecodeFixed_EncodeFixed: "DecodeFixed (EncodeFixed n v) = take_bit (8 * n) v"
proof (induction n arbitrary: v)
  case 0
  show ?case by simp
next
  case (Suc n)
  have "ucast (ucast v :: u8) OR push_bit 8 (take_bit (8 * n) (drop_bit 8 v))
        = take_bit (8 * Suc n) v"
    by (rule bit_word_eqI) (auto simp: bit_simps)
  then show ?case by (simp add: Suc)
qed

lemma DecodeFixed64_EncodeFixed64: "DecodeFixed64 (EncodeFixed64 v @ rest) = v"
proof -
  have "take 8 (EncodeFixed64 v @ rest) = EncodeFixed 8 v"
    by (simp add: EncodeFixed64_def length_EncodeFixed)
  then have "DecodeFixed64 (EncodeFixed64 v @ rest) = take_bit 64 v"
    by (simp add: DecodeFixed64_def DecodeFixed_EncodeFixed)
  then show ?thesis by (simp add: take_bit_word_eq_self)
qed

lemma low_byte_mask: "(0xff :: u64) = mask 8"
  by (simp add: mask_eq_exp_minus_1)

lemma tag_type_Pack: "tag_type (PackSequenceAndType s t) = t"
  unfolding tag_type_def PackSequenceAndType_def low_byte_mask
  by (rule bit_word_eqI) (auto simp: bit_simps)

lemma unat_tag_sequence: "unat (tag_sequence num) = unat num div 2 ^ 8"
  by (simp add: tag_sequence_def drop_bit_eq_div unat_div_distrib)

lemma unat_kMaxSequenceNumber: "unat kMaxSequenceNumber = 2 ^ 56 - 1"
  by (simp add: kMaxSequenceNumber_def)

lemma tag_sequence_le: "tag_sequence num \<le> kMaxSequenceNumber"
proof -
  have "unat num < 2 ^ 64"
    using unsigned_less [of num] by simp
  then have "unat (tag_sequence num) < 2 ^ 56"
    unfolding unat_tag_sequence by simp
  then show ?thesis
    by (simp add: word_le_nat_alt unat_kMaxSequenceNumber)
qed

lemma sequence_high_bits:
  assumes "s \<le> kMaxSequenceNumber" and "56 \<le> n"
  shows "\<not> bit s n"
proof -
  have "unat s < 2 ^ 56"
    using assms(1) by (simp add: word_le_nat_alt unat_kMaxSequenceNumber)
  then have "s < 2 ^ 56"
    by (simp add: word_less_nat_alt)
  then have "take_bit 56 s = s"
    using less_mask_eq [of s 56] by (simp add: take_bit_eq_mask)
  then have "bit s n = bit (take_bit 56 s) n" by simp
  also have "\<dots> = (n < 56 \<and> bit s n)" by (simp only: bit_take_bit_iff)
  finally show ?thesis using assms(2) by simp
qed

lemma tag_sequence_Pack:
  assumes "s \<le> kMaxSequenceNumber"
  shows "tag_sequence (PackSequenceAndType s t) = s"
proof -
  have high: "n < 56" if "bit s n" for n
    using sequence_high_bits [OF assms, of n] that by (cases "n < 56") simp_all
  have low: "\<not> bit t (8 + n)" for n
    using bit_imp_le_length [of t "8 + n"] by auto
  show ?thesis
    unfolding tag_sequence_def PackSequenceAndType_def
    by (rule bit_word_eqI) (auto simp: bit_simps low dest: high)
qed

section \<open>Facts about the two decoders\<close>

lemma ParseInternalKey_short:
  "length b < 8 \<Longrightarrow> ParseInternalKey b r = (False, r)"
  by (simp add: ParseInternalKey_def)

lemma ParseInternalKey_long:
  assumes "8 \<le> length b"
  shows "ParseInternalKey b r =
     (tag_type (DecodeFixed64 (drop (length b - 8) b)) \<le> kTypeValue,
      \<lparr>user_key = take (length b - 8) b,
       sequence = tag_sequence (DecodeFixed64 (drop (length b - 8) b)),
       type = tag_type (DecodeFixed64 (drop (length b - 8) b))\<rparr>)"
  using assms by (cases r) (simp add: ParseInternalKey_def Let_def tag_type_def tag_sequence_def)

lemma ParseMVInternalKey_short:
  "length b < 16 \<Longrightarrow> ParseMVInternalKey b r = (False, r)"
  by (simp add: ParseMVInternalKey_def)

lemma ParseMVInternalKey_long:
  assumes "16 \<le> length b"
  shows "ParseMVInternalKey b r =
     (tag_type (DecodeFixed64 (drop (length b - 16) b)) \<le> kTypeValue,
      \<lparr>user_key = take (length b - 16) b,
       sequence = tag_sequence (DecodeFixed64 (drop (length b - 16) b)),
       type = tag_type (DecodeFixed64 (drop (length b - 16) b)),
       valid_time = DecodeFixed64 (drop (length b - 8) b)\<rparr>)"
  using assms by (cases r) (simp add: ParseMVInternalKey_def Let_def tag_type_def tag_sequence_def)

lemma two_not_le_kTypeValue: "\<not> (2 :: u8) \<le> kTypeValue"
  by (simp add: kTypeValue_def word_le_nat_alt)

section \<open>Decoding: success, failure and what is written\<close>

text \<open>
  C3. \<open>ParseInternalKey\<close> succeeds exactly when its input has at least 8 bytes and the
  type byte of the tag (the low byte of the little-endian integer in the last 8 bytes) is
  at most 1, the largest defined type. \<open>ParseMVInternalKey\<close> succeeds exactly when its
  input has at least 16 bytes and the type byte of the tag is at most 1; in the
  multi-version layout the tag is the 8 bytes before the trailing valid time. In
  particular an input below the minimum length fails, and so does one whose tag carries the
  type value 2.
\<close>

theorem parse_success_iff:
  "(fst (ParseInternalKey b r) \<longleftrightarrow>
      8 \<le> length b \<and> tag_type (DecodeFixed64 (drop (length b - 8) b)) \<le> 1) \<and>
   (fst (ParseMVInternalKey b mr) \<longleftrightarrow>
      16 \<le> length b \<and> tag_type (DecodeFixed64 (drop (length b - 16) b)) \<le> 1) \<and>
   (length b < 8 \<longrightarrow> \<not> fst (ParseInternalKey b r)) \<and>
   (length b < 16 \<longrightarrow> \<not> fst (ParseMVInternalKey b mr)) \<and>
   (tag_type (DecodeFixed64 (drop (length b - 8) b)) = 2 \<longrightarrow> \<not> fst (ParseInternalKey b r)) \<and>
   (tag_type (DecodeFixed64 (drop (length b - 16) b)) = 2 \<longrightarrow>
      \<not> fst (ParseMVInternalKey b mr))"
proof -
  have a: "fst (ParseInternalKey b r) \<longleftrightarrow>
      8 \<le> length b \<and> tag_type (DecodeFixed64 (drop (length b - 8) b)) \<le> 1"
  proof (cases "8 \<le> length b")
    case True
    then show ?thesis by (simp add: ParseInternalKey_long kTypeValue_def)
  next
    case False
    then show ?thesis by (simp add: ParseInternalKey_short)
  qed
  have m: "fst (ParseMVInternalKey b mr) \<longleftrightarrow>
      16 \<le> length b \<and> tag_type (DecodeFixed64 (drop (length b - 16) b)) \<le> 1"
  proof (cases "16 \<le> length b")
    case True
    then show ?thesis by (simp add: ParseMVInternalKey_long kTypeValue_def)
  next
    case False
    then show ?thesis by (simp add: ParseMVInternalKey_short)
  qed
  have two: "\<not> (2 :: u8) \<le> 1"
    using two_not_le_kTypeValue by (simp add: kTypeValue_def)
  show ?thesis
    using a m two by auto
qed

theorem parse_success_iff_witness:
  "fst (ParseInternalKey [97, 1, 5, 0, 0, 0, 0, 0, 0] \<lparr>user_key = [], sequence = 0, type = 0\<rparr>) \<and>
   \<not> fst (ParseInternalKey [97, 2, 5, 0, 0, 0, 0, 0, 0] \<lparr>user_key = [], sequence = 0, type = 0\<rparr>) \<and>
   \<not> fst (ParseInternalKey [97, 1, 5, 0, 0, 0, 0] \<lparr>user_key = [], sequence = 0, type = 0\<rparr>) \<and>
   \<not> fst (ParseMVInternalKey [97, 2, 5, 0, 0, 0, 0, 0, 0]
          \<lparr>user_key = [], sequence = 0, type = 0, valid_time = 0\<rparr>)"
proof -
  let ?r = "\<lparr>user_key = [], sequence = 0, type = 0\<rparr>"
  let ?mr = "\<lparr>user_key = [], sequence = 0, type = 0, valid_time = 0\<rparr>"
  have t1: "tag_type (DecodeFixed64 [1, 5, 0, 0, 0, 0, 0, 0]) = 1"
    by (simp add: tag_type_def DecodeFixed64_def)
  have t2: "tag_type (DecodeFixed64 [2, 5, 0, 0, 0, 0, 0, 0]) = 2"
    by (simp add: tag_type_def DecodeFixed64_def)
  have "fst (ParseInternalKey [97, 1, 5, 0, 0, 0, 0, 0, 0] ?r)"
    using parse_success_iff [of "[97, 1, 5, 0, 0, 0, 0, 0, 0]" ?r ?mr, THEN conjunct1]
    by (simp add: t1)
  moreover have "\<not> fst (ParseInternalKey [97, 2, 5, 0, 0, 0, 0, 0, 0] ?r)"
    and "\<not> fst (ParseMVInternalKey [97, 2, 5, 0, 0, 0, 0, 0, 0] ?mr)"
    using parse_success_iff [of "[97, 2, 5, 0, 0, 0, 0, 0, 0]" ?r ?mr]
    by (simp_all add: t2 word_le_nat_alt)
  moreover have "\<not> fst (ParseInternalKey [97, 1, 5, 0, 0, 0, 0] ?r)"
    using parse_success_iff [of "[97, 1, 5, 0, 0, 0, 0]" ?r ?mr]
    by simp
  ultimately show ?thesis by simp
qed

text \<open>
  C9. On input shorter than 8 bytes (16 for the multi-version decoder) the decoder returns
  failure and the caller's parsed key is returned as it was passed in. When the input is
  long enough and the decoder fails because the type byte exceeds \<open>kTypeValue\<close>, every
  field of the parsed key holds the decoded value: the user key is the input without its
  suffix, the sequence is the tag shifted right by 8, the type is the offending byte, and
  for the multi-version decoder the valid time is the integer in the last 8 bytes.
\<close>

theorem parse_failure_output:
  "(length b < 8 \<longrightarrow> ParseInternalKey b r = (False, r)) \<and>
   (length b < 16 \<longrightarrow> ParseMVInternalKey b mr = (False, mr)) \<and>
   (8 \<le> length b \<and> kTypeValue < tag_type (DecodeFixed64 (drop (length b - 8) b)) \<longrightarrow>
      ParseInternalKey b r =
        (False,
         \<lparr>user_key = take (length b - 8) b,
          sequence = drop_bit 8 (DecodeFixed64 (drop (length b - 8) b)),
          type = tag_type (DecodeFixed64 (drop (length b - 8) b))\<rparr>)) \<and>
   (16 \<le> length b \<and> kTypeValue < tag_type (DecodeFixed64 (drop (length b - 16) b)) \<longrightarrow>
      ParseMVInternalKey b mr =
        (False,
         \<lparr>user_key = take (length b - 16) b,
          sequence = drop_bit 8 (DecodeFixed64 (drop (length b - 16) b)),
          type = tag_type (DecodeFixed64 (drop (length b - 16) b)),
          valid_time = DecodeFixed64 (drop (length b - 8) b)\<rparr>))"
proof -
  have not_le: "\<not> c \<le> kTypeValue" if "kTypeValue < c" for c :: u8
    using that by simp
  show ?thesis
    by (simp add: ParseInternalKey_short ParseMVInternalKey_short ParseInternalKey_long
        ParseMVInternalKey_long not_le tag_sequence_def)
qed

theorem parse_failure_output_witness:
  "ParseInternalKey [97, 1, 5, 0] \<lparr>user_key = [7], sequence = 7, type = 1\<rparr>
     = (False, \<lparr>user_key = [7], sequence = 7, type = 1\<rparr>) \<and>
   ParseMVInternalKey [97, 2, 5, 0, 0, 0, 0, 0, 0]
       \<lparr>user_key = [7], sequence = 7, type = 1, valid_time = 9\<rparr>
     = (False, \<lparr>user_key = [7], sequence = 7, type = 1, valid_time = 9\<rparr>) \<and>
   ParseInternalKey [97, 2, 5, 0, 0, 0, 0, 0, 0] \<lparr>user_key = [7], sequence = 7, type = 1\<rparr>
     = (False, \<lparr>user_key = [97], sequence = 5, type = 2\<rparr>) \<and>
   ParseMVInternalKey [97, 2, 5, 0, 0, 0, 0, 0, 0, 42, 0, 0, 0, 0, 0, 0, 0]
       \<lparr>user_key = [7], sequence = 7, type = 1, valid_time = 9\<rparr>
     = (False, \<lparr>user_key = [97], sequence = 5, type = 2, valid_time = 42\<rparr>)"
proof -
  let ?r = "\<lparr>user_key = [7], sequence = 7, type = 1\<rparr>"
  let ?mr = "\<lparr>user_key = [7], sequence = 7, type = 1, valid_time = 9\<rparr>"
  have t2: "tag_type (DecodeFixed64 [2, 5, 0, 0, 0, 0, 0, 0]) = 2"
    "tag_type (DecodeFixed64 [2, 5, 0, 0, 0, 0, 0, 0, 42, 0, 0, 0, 0, 0, 0, 0]) = 2"
    by (simp_all add: tag_type_def DecodeFixed64_def)
  have s5: "drop_bit 8 (DecodeFixed64 [2, 5, 0, 0, 0, 0, 0, 0]) = 5"
    "drop_bit 8 (DecodeFixed64 [2, 5, 0, 0, 0, 0, 0, 0, 42, 0, 0, 0, 0, 0, 0, 0]) = 5"
    "DecodeFixed64 [42, 0, 0, 0, 0, 0, 0, 0] = 42"
    by (simp_all add: DecodeFixed64_def)
  have lt: "kTypeValue < 2"
    by (simp add: kTypeValue_def word_less_nat_alt)
  have "ParseInternalKey [97, 1, 5, 0] ?r = (False, ?r)"
    using parse_failure_output [of "[97, 1, 5, 0]" ?r ?mr] by simp
  moreover have "ParseMVInternalKey [97, 2, 5, 0, 0, 0, 0, 0, 0] ?mr = (False, ?mr)"
    and "ParseInternalKey [97, 2, 5, 0, 0, 0, 0, 0, 0] ?r
           = (False, \<lparr>user_key = [97], sequence = 5, type = 2\<rparr>)"
    using parse_failure_output [of "[97, 2, 5, 0, 0, 0, 0, 0, 0]" ?r ?mr]
    by (simp_all add: t2 s5 lt)
  moreover have "ParseMVInternalKey [97, 2, 5, 0, 0, 0, 0, 0, 0, 42, 0, 0, 0, 0, 0, 0, 0] ?mr
           = (False, \<lparr>user_key = [97], sequence = 5, type = 2, valid_time = 42\<rparr>)"
    using parse_failure_output [of "[97, 2, 5, 0, 0, 0, 0, 0, 0, 42, 0, 0, 0, 0, 0, 0, 0]" ?r ?mr]
    by (simp add: t2 s5 lt)
  ultimately show ?thesis by simp
qed

text \<open>
  C10. Whenever a decoder runs its tag-decoding step (input of at least 8 bytes, 16 for the
  multi-version decoder), the sequence number it stores is the tag shifted right by 8, and
  that value is at most \<open>kMaxSequenceNumber\<close>, that is \<open>2^56 - 1\<close>, whatever the input bytes
  and whether or not the decoder then accepts the type byte.
\<close>

theorem parsed_sequence_bounded:
  "(8 \<le> length b \<longrightarrow>
      sequence (snd (ParseInternalKey b r)) = drop_bit 8 (DecodeFixed64 (drop (length b - 8) b)) \<and>
      sequence (snd (ParseInternalKey b r)) \<le> kMaxSequenceNumber \<and>
      unat (sequence (snd (ParseInternalKey b r))) \<le> 2 ^ 56 - 1) \<and>
   (16 \<le> length b \<longrightarrow>
      sequence (snd (ParseMVInternalKey b mr))
        = drop_bit 8 (DecodeFixed64 (drop (length b - 16) b)) \<and>
      sequence (snd (ParseMVInternalKey b mr)) \<le> kMaxSequenceNumber \<and>
      unat (sequence (snd (ParseMVInternalKey b mr))) \<le> 2 ^ 56 - 1)"
proof -
  have bound: "unat (tag_sequence num) \<le> 2 ^ 56 - 1" for num
    using tag_sequence_le [of num] by (simp add: word_le_nat_alt unat_kMaxSequenceNumber)
  have "sequence (snd (ParseInternalKey b r)) = tag_sequence (DecodeFixed64 (drop (length b - 8) b))"
    if "8 \<le> length b"
    using that by (simp add: ParseInternalKey_long)
  moreover have "sequence (snd (ParseMVInternalKey b mr))
      = tag_sequence (DecodeFixed64 (drop (length b - 16) b))"
    if "16 \<le> length b"
    using that by (simp add: ParseMVInternalKey_long)
  ultimately show ?thesis
    using tag_sequence_le bound by (simp add: tag_sequence_def)
qed

theorem parsed_sequence_bounded_witness:
  "unat (sequence (snd (ParseInternalKey [255, 255, 255, 255, 255, 255, 255, 255]
      \<lparr>user_key = [], sequence = 0, type = 0\<rparr>))) = 2 ^ 56 - 1 \<and>
   sequence (snd (ParseInternalKey [255, 255, 255, 255, 255, 255, 255, 255]
      \<lparr>user_key = [], sequence = 0, type = 0\<rparr>)) \<le> kMaxSequenceNumber \<and>
   sequence (snd (ParseMVInternalKey
      [255, 255, 255, 255, 255, 255, 255, 255, 255, 255, 255, 255, 255, 255, 255, 255]
      \<lparr>user_key = [], sequence = 0, type = 0, valid_time = 0\<rparr>)) \<le> kMaxSequenceNumber"
proof -
  let ?b = "[255, 255, 255, 255, 255, 255, 255, 255, 255, 255, 255, 255, 255, 255, 255, 255] :: bytes"
  let ?r = "\<lparr>user_key = [], sequence = 0, type = 0\<rparr>"
  let ?mr = "\<lparr>user_key = [], sequence = 0, type = 0, valid_time = 0\<rparr>"
  have v: "unat (drop_bit 8 (DecodeFixed64 [255, 255, 255, 255, 255, 255, 255, 255])) = 2 ^ 56 - 1"
    by (simp add: DecodeFixed64_def)
  have len: "8 \<le> length ([255, 255, 255, 255, 255, 255, 255, 255] :: bytes)"
    by simp
  note at8 = parsed_sequence_bounded
    [of "[255, 255, 255, 255, 255, 255, 255, 255]" ?r ?mr, THEN conjunct1, rule_format, OF len]
  have "sequence (snd (ParseInternalKey [255, 255, 255, 255, 255, 255, 255, 255] ?r))
          = drop_bit 8 (DecodeFixed64 [255, 255, 255, 255, 255, 255, 255, 255])"
    using at8 by simp
  then have "unat (sequence (snd (ParseInternalKey [255, 255, 255, 255, 255, 255, 255, 255] ?r)))
          = 2 ^ 56 - 1"
    using v by simp
  moreover have "sequence (snd (ParseInternalKey [255, 255, 255, 255, 255, 255, 255, 255] ?r))
          \<le> kMaxSequenceNumber"
    using at8 by blast
  moreover have "sequence (snd (ParseMVInternalKey ?b ?mr)) \<le> kMaxSequenceNumber"
  proof -
    have len16: "16 \<le> length ?b" by simp
    show ?thesis
      using parsed_sequence_bounded [of ?b ?r ?mr, THEN conjunct2, rule_format, OF len16]
      by blast
  qed
  ultimately show ?thesis by simp
qed

section \<open>Encoding followed by decoding\<close>

lemma DecodeFixed64_EncodeFixed64_only: "DecodeFixed64 (EncodeFixed64 v) = v"
  using DecodeFixed64_EncodeFixed64 [of v "[]"] by simp

lemma ParseInternalKey_encoded:
  "ParseInternalKey (u @ EncodeFixed64 tag) r =
     (tag_type tag \<le> kTypeValue,
      \<lparr>user_key = u, sequence = tag_sequence tag, type = tag_type tag\<rparr>)"
proof -
  let ?b = "u @ EncodeFixed64 tag"
  have ge: "8 \<le> length ?b"
    by (simp add: length_EncodeFixed64)
  have len: "length ?b - 8 = length u"
    by (simp add: length_EncodeFixed64)
  have d: "drop (length ?b - 8) ?b = EncodeFixed64 tag"
    unfolding len by simp
  have t: "take (length ?b - 8) ?b = u"
    unfolding len by simp
  show ?thesis
    unfolding ParseInternalKey_long [OF ge] d t DecodeFixed64_EncodeFixed64_only by simp
qed

lemma ParseMVInternalKey_encoded:
  "ParseMVInternalKey (u @ EncodeFixed64 tag @ EncodeFixed64 vt) r =
     (tag_type tag \<le> kTypeValue,
      \<lparr>user_key = u, sequence = tag_sequence tag, type = tag_type tag, valid_time = vt\<rparr>)"
proof -
  let ?b = "u @ EncodeFixed64 tag @ EncodeFixed64 vt"
  have ge: "16 \<le> length ?b"
    by (simp add: length_EncodeFixed64)
  have len16: "length ?b - 16 = length u" and len8: "length ?b - 8 = length u + 8"
    by (simp_all add: length_EncodeFixed64)
  have d16: "drop (length ?b - 16) ?b = EncodeFixed64 tag @ EncodeFixed64 vt"
    unfolding len16 by simp
  have d8: "drop (length ?b - 8) ?b = EncodeFixed64 vt"
    unfolding len8 by (simp add: length_EncodeFixed64)
  have t: "take (length ?b - 16) ?b = u"
    unfolding len16 by simp
  show ?thesis
    unfolding ParseMVInternalKey_long [OF ge] d16 d8 t DecodeFixed64_EncodeFixed64
      DecodeFixed64_EncodeFixed64_only
    by simp
qed

lemma length_AppendInternalKey:
  "length (AppendInternalKey [] key) = InternalKeyEncodingLength key"
  by (simp add: AppendInternalKey_def InternalKeyEncodingLength_def length_EncodeFixed64)

lemma length_AppendMVInternalKey:
  "length (AppendMVInternalKey [] key) = MVInternalKeyEncodingLength key"
  by (simp add: AppendMVInternalKey_def MVInternalKeyEncodingLength_def length_EncodeFixed64)

lemma type_le_kTypeValue: "t = kTypeDeletion \<or> t = kTypeValue \<Longrightarrow> t \<le> kTypeValue"
  by (auto simp: kTypeDeletion_def kTypeValue_def)

text \<open>
  C2. For every user key \<open>u\<close>, every sequence \<open>s\<close> up to \<open>kMaxSequenceNumber = 2^56 - 1\<close>
  and each of the two types, decoding the encoding of \<open>{u, s, t}\<close> succeeds and writes
  exactly \<open>{u, s, t}\<close>, whatever the parsed key held before; the multi-version codec
  does the same for \<open>{u, s, t, valid_time}\<close> with every 64-bit valid time.
\<close>

theorem codec_round_trip:
  assumes "s \<le> kMaxSequenceNumber" and "t = kTypeDeletion \<or> t = kTypeValue"
  shows "ParseInternalKey (AppendInternalKey [] \<lparr>user_key = u, sequence = s, type = t\<rparr>) r
           = (True, \<lparr>user_key = u, sequence = s, type = t\<rparr>) \<and>
         ParseMVInternalKey
             (AppendMVInternalKey [] \<lparr>user_key = u, sequence = s, type = t, valid_time = vt\<rparr>) mr
           = (True, \<lparr>user_key = u, sequence = s, type = t, valid_time = vt\<rparr>)"
  using type_le_kTypeValue [OF assms(2)] tag_sequence_Pack [OF assms(1)]
  by (simp add: AppendInternalKey_def AppendMVInternalKey_def ParseInternalKey_encoded
      ParseMVInternalKey_encoded tag_type_Pack)

theorem codec_round_trip_witness:
  "ParseInternalKey (AppendInternalKey [] \<lparr>user_key = map of_char ''abc'', sequence = 5, type = kTypeValue\<rparr>)
       \<lparr>user_key = [], sequence = 0, type = 0\<rparr>
     = (True, \<lparr>user_key = map of_char ''abc'', sequence = 5, type = kTypeValue\<rparr>) \<and>
   ParseMVInternalKey
       (AppendMVInternalKey []
          \<lparr>user_key = map of_char ''abc'', sequence = 5, type = kTypeValue, valid_time = 42\<rparr>)
       \<lparr>user_key = [], sequence = 0, type = 0, valid_time = 0\<rparr>
     = (True, \<lparr>user_key = map of_char ''abc'', sequence = 5, type = kTypeValue, valid_time = 42\<rparr>)"
proof -
  have s: "(5 :: u64) \<le> kMaxSequenceNumber"
    by (simp add: kMaxSequenceNumber_def word_le_nat_alt)
  have t: "kTypeValue = kTypeDeletion \<or> kTypeValue = kTypeValue"
    by simp
  show ?thesis
    using codec_round_trip [OF s t] by blast
qed

section \<open>The concrete multi-version example\<close>

lemma EncodeFixed64_bytes:
  "EncodeFixed64 v =
     [ucast v, ucast (drop_bit 8 v), ucast (drop_bit 16 v), ucast (drop_bit 24 v),
      ucast (drop_bit 32 v), ucast (drop_bit 40 v), ucast (drop_bit 48 v),
      ucast (drop_bit 56 v)]"
proof -
  have "EncodeFixed 8 v = EncodeFixed (Suc (Suc (Suc (Suc (Suc (Suc (Suc (Suc 0)))))))) v"
    by (rule arg_cong [where f = "\<lambda>n. EncodeFixed n v"]) simp
  also have "\<dots> =
     [ucast v, ucast (drop_bit 8 v), ucast (drop_bit 16 v), ucast (drop_bit 24 v),
      ucast (drop_bit 32 v), ucast (drop_bit 40 v), ucast (drop_bit 48 v),
      ucast (drop_bit 56 v)]"
    by (simp add: drop_bit_drop_bit)
  finally show ?thesis
    by (simp only: EncodeFixed64_def)
qed

lemma EncodeFixed64_2560: "EncodeFixed64 2560 = [0, 10, 0, 0, 0, 0, 0, 0]"
  unfolding EncodeFixed64_bytes by simp

lemma EncodeFixed64_42: "EncodeFixed64 42 = [42, 0, 0, 0, 0, 0, 0, 0]"
  unfolding EncodeFixed64_bytes by simp

lemma Pack_10_Deletion: "PackSequenceAndType 10 kTypeDeletion = 2560"
  by (simp add: PackSequenceAndType_def kTypeDeletion_def)

text \<open>
  C6. The multi-version parsed key \<open>{"k", 10, Deletion, 42}\<close> encodes to \<open>"k"\<close> followed
  by the 8-byte integer 2560 and the 8-byte integer 42 (17 bytes, least significant byte
  first). The spec's \<open>ExtractUserKey\<close> cuts 8 bytes off an internal key and 16 off a
  multi-version one; the header has the second as \<open>MVExtractUserKey\<close>, and applied to this
  buffer it returns exactly the one-byte user key \<open>"k"\<close>. (The 8-byte function of the
  header, applied to the same buffer, leaves \<open>"k"\<close> followed by the tag.)
\<close>

theorem mv_example_encoding:
  "AppendMVInternalKey []
     \<lparr>user_key = map of_char ''k'', sequence = 10, type = kTypeDeletion, valid_time = 42\<rparr>
     = map of_char ''k'' @ EncodeFixed64 2560 @ EncodeFixed64 42 \<and>
   map of_char ''k'' @ EncodeFixed64 2560 @ EncodeFixed64 42
     = [107, 0, 10, 0, 0, 0, 0, 0, 0, 42, 0, 0, 0, 0, 0, 0, 0] \<and>
   MVExtractUserKey
     (AppendMVInternalKey []
        \<lparr>user_key = map of_char ''k'', sequence = 10, type = kTypeDeletion, valid_time = 42\<rparr>)
     = Some (map of_char ''k'') \<and>
   ExtractUserKey
     (AppendMVInternalKey []
        \<lparr>user_key = map of_char ''k'', sequence = 10, type = kTypeDeletion, valid_time = 42\<rparr>)
     = Some (map of_char ''k'' @ EncodeFixed64 2560)"
  by (simp add: AppendMVInternalKey_def Pack_10_Deletion EncodeFixed64_2560 EncodeFixed64_42
      MVExtractUserKey_def ExtractUserKey_def)

section \<open>The order on encoded internal keys\<close>

lemma tag_sequence_mono: "a \<le> b \<Longrightarrow> tag_sequence a \<le> tag_sequence b"
  by (simp add: word_le_nat_alt unat_tag_sequence div_le_mono)

lemma Pack_less:
  assumes "s2 < s1" and "s1 \<le> kMaxSequenceNumber"
  shows "PackSequenceAndType s2 t2 < PackSequenceAndType s1 t1"
proof (rule ccontr)
  assume "\<not> PackSequenceAndType s2 t2 < PackSequenceAndType s1 t1"
  then have "PackSequenceAndType s1 t1 \<le> PackSequenceAndType s2 t2"
    by simp
  then have "tag_sequence (PackSequenceAndType s1 t1) \<le> tag_sequence (PackSequenceAndType s2 t2)"
    by (rule tag_sequence_mono)
  moreover have "s2 \<le> kMaxSequenceNumber"
    using assms by simp
  ultimately have "s1 \<le> s2"
    using assms(2) by (simp add: tag_sequence_Pack)
  with assms(1) show False by simp
qed

lemma Compare_encoded:
  "InternalKeyComparator_Compare U (ua @ EncodeFixed64 anum) (ub @ EncodeFixed64 bnum) =
     Some (if U ua ub \<noteq> 0 then U ua ub
           else if anum > bnum then - 1 else if anum < bnum then 1 else 0)"
  by (simp add: InternalKeyComparator_Compare_def ExtractUserKey_def length_EncodeFixed64
      DecodeFixed64_EncodeFixed64_only Let_def)

text \<open>
  C1. For encoded internal keys \<open>a\<close> and \<open>b\<close> (at least 8 bytes each), \<open>Compare\<close> returns
  the result of the user comparator \<open>U\<close> on the two user-key portions when that result is
  not zero. When the user keys are equal under \<open>U\<close>, the key with the numerically larger
  8-byte tag sorts first (the result is negative), and the key with the smaller tag sorts
  last. In particular, for one user key \<open>u\<close> with \<open>U u u = 0\<close> and sequences
  \<open>s2 < s1 \<le> kMaxSequenceNumber\<close>, the encoding of \<open>{u, s1, t1}\<close> sorts before the
  encoding of \<open>{u, s2, t2}\<close> for all type bytes \<open>t1\<close> and \<open>t2\<close>, and so do the two
  owning keys built from these parsed keys under the overload on \<open>InternalKey\<close>.
\<close>

theorem internal_key_order:
  "(8 \<le> length a \<and> 8 \<le> length b \<and>
      U (take (length a - 8) a) (take (length b - 8) b) \<noteq> 0 \<longrightarrow>
      InternalKeyComparator_Compare U a b
        = Some (U (take (length a - 8) a) (take (length b - 8) b))) \<and>
   (8 \<le> length a \<and> 8 \<le> length b \<and>
      U (take (length a - 8) a) (take (length b - 8) b) = 0 \<and>
      DecodeFixed64 (drop (length a - 8) a) > DecodeFixed64 (drop (length b - 8) b) \<longrightarrow>
      InternalKeyComparator_Compare U a b = Some (- 1)) \<and>
   (8 \<le> length a \<and> 8 \<le> length b \<and>
      U (take (length a - 8) a) (take (length b - 8) b) = 0 \<and>
      DecodeFixed64 (drop (length a - 8) a) < DecodeFixed64 (drop (length b - 8) b) \<longrightarrow>
      InternalKeyComparator_Compare U a b = Some 1) \<and>
   (U u u = 0 \<and> s2 < s1 \<and> s1 \<le> kMaxSequenceNumber \<longrightarrow>
      InternalKeyComparator_Compare U
        (AppendInternalKey [] \<lparr>user_key = u, sequence = s1, type = t1\<rparr>)
        (AppendInternalKey [] \<lparr>user_key = u, sequence = s2, type = t2\<rparr>) = Some (- 1) \<and>
      InternalKeyComparator_Compare_keys U (InternalKey_ctor u s1 t1) (InternalKey_ctor u s2 t2)
        = Some (- 1))"
proof -
  have seq: "InternalKeyComparator_Compare U
        (AppendInternalKey [] \<lparr>user_key = u, sequence = s1, type = t1\<rparr>)
        (AppendInternalKey [] \<lparr>user_key = u, sequence = s2, type = t2\<rparr>) = Some (- 1)"
    if "U u u = 0" "s2 < s1" "s1 \<le> kMaxSequenceNumber"
    using that(1) Pack_less [OF that(2,3), of t2 t1]
    by (simp add: AppendInternalKey_def Compare_encoded)
  have gen: "InternalKeyComparator_Compare U a b =
      Some (if U (take (length a - 8) a) (take (length b - 8) b) \<noteq> 0
            then U (take (length a - 8) a) (take (length b - 8) b)
            else if DecodeFixed64 (drop (length a - 8) a) > DecodeFixed64 (drop (length b - 8) b)
              then - 1
            else if DecodeFixed64 (drop (length a - 8) a) < DecodeFixed64 (drop (length b - 8) b)
              then 1 else 0)"
    if "8 \<le> length a" "8 \<le> length b"
    using that by (simp add: InternalKeyComparator_Compare_def ExtractUserKey_def Let_def)
  have c1: "InternalKeyComparator_Compare U a b
        = Some (U (take (length a - 8) a) (take (length b - 8) b))"
    if "8 \<le> length a" "8 \<le> length b"
      "U (take (length a - 8) a) (take (length b - 8) b) \<noteq> 0"
    using that by (simp add: gen)
  have c2: "InternalKeyComparator_Compare U a b = Some (- 1)"
    if "8 \<le> length a" "8 \<le> length b"
      "U (take (length a - 8) a) (take (length b - 8) b) = 0"
      "DecodeFixed64 (drop (length a - 8) a) > DecodeFixed64 (drop (length b - 8) b)"
    using that by (simp add: gen)
  have c3: "InternalKeyComparator_Compare U a b = Some 1"
    if "8 \<le> length a" "8 \<le> length b"
      "U (take (length a - 8) a) (take (length b - 8) b) = 0"
      "DecodeFixed64 (drop (length a - 8) a) < DecodeFixed64 (drop (length b - 8) b)"
  proof -
    have "\<not> DecodeFixed64 (drop (length a - 8) a) > DecodeFixed64 (drop (length b - 8) b)"
      using that(4) by simp
    then show ?thesis
      using that by (simp add: gen)
  qed
  have enc: "InternalKey_Encode (InternalKey_ctor u s t)
      = Some (AppendInternalKey [] \<lparr>user_key = u, sequence = s, type = t\<rparr>)" for s t
  proof -
    have "length (AppendInternalKey [] \<lparr>user_key = u, sequence = s, type = t\<rparr>) \<noteq> 0"
      unfolding length_AppendInternalKey by (simp add: InternalKeyEncodingLength_def)
    then show ?thesis
      by (simp add: InternalKey_Encode_def InternalKey_ctor_def)
  qed
  have keys: "InternalKeyComparator_Compare_keys U (InternalKey_ctor u s1 t1)
        (InternalKey_ctor u s2 t2) = Some (- 1)"
    if "U u u = 0" "s2 < s1" "s1 \<le> kMaxSequenceNumber"
    unfolding InternalKeyComparator_Compare_keys_def enc using seq [OF that] by simp
  show ?thesis
    using c1 c2 c3 seq keys by blast
qed

theorem internal_key_order_witness:
  "InternalKeyComparator_Compare (\<lambda>x y. int (length x) - int (length y))
     (AppendInternalKey [] \<lparr>user_key = map of_char ''k'', sequence = 7, type = kTypeDeletion\<rparr>)
     (AppendInternalKey [] \<lparr>user_key = map of_char ''k'', sequence = 3, type = kTypeValue\<rparr>)
     = Some (- 1) \<and>
   InternalKeyComparator_Compare (\<lambda>x y. int (length x) - int (length y))
     (map of_char ''ab'' @ EncodeFixed64 1) (map of_char ''c'' @ EncodeFixed64 9) = Some 1"
proof -
  let ?U = "\<lambda>x y :: bytes. int (length x) - int (length y)"
  let ?a = "map of_char ''ab'' @ EncodeFixed64 1"
  let ?b = "map of_char ''c'' @ EncodeFixed64 9"
  have s: "(3 :: u64) < 7" "(7 :: u64) \<le> kMaxSequenceNumber"
    by (simp_all add: kMaxSequenceNumber_def word_le_nat_alt word_less_nat_alt)
  have refl: "?U (map of_char ''k'') (map of_char ''k'') = 0"
    by simp
  have first: "InternalKeyComparator_Compare ?U
     (AppendInternalKey [] \<lparr>user_key = map of_char ''k'', sequence = 7, type = kTypeDeletion\<rparr>)
     (AppendInternalKey [] \<lparr>user_key = map of_char ''k'', sequence = 3, type = kTypeValue\<rparr>)
     = Some (- 1)"
    using internal_key_order [of _ _ ?U "map of_char ''k''" 3 7 kTypeDeletion kTypeValue] refl s
    by blast
  have len: "8 \<le> length ?a" "8 \<le> length ?b"
    by (simp_all add: length_EncodeFixed64)
  have uk: "take (length ?a - 8) ?a = map of_char ''ab''" "take (length ?b - 8) ?b = map of_char ''c''"
    by (simp_all add: length_EncodeFixed64)
  have ne: "?U (take (length ?a - 8) ?a) (take (length ?b - 8) ?b) \<noteq> 0"
    unfolding uk by simp
  have "InternalKeyComparator_Compare ?U ?a ?b
     = Some (?U (take (length ?a - 8) ?a) (take (length ?b - 8) ?b))"
    using internal_key_order [of ?a ?b ?U] len ne by blast
  then have second: "InternalKeyComparator_Compare ?U ?a ?b = Some 1"
    unfolding uk by simp
  show ?thesis
    using first second by blast
qed

section \<open>The views of a lookup key\<close>

lemma LookupKey_ctor_shape:
  "\<exists>behind. LookupKey_ctor space heap u s =
     \<lparr>mem = EncodeVarint32 (of_nat (length u + 8)) @ u
              @ EncodeFixed64 (PackSequenceAndType s kValueTypeForSeek) @ behind,
      start = 0,
      kstart = length (EncodeVarint32 (of_nat (length u + 8))),
      end_ptr = length (EncodeVarint32 (of_nat (length u + 8))) + length u + 8\<rparr>"
  by (simp add: LookupKey_ctor_def Let_def length_EncodeFixed64)

lemma MVLookupKey_ctor_shape:
  "\<exists>behind. MVLookupKey_ctor space heap u s vt =
     \<lparr>mv_mem = EncodeVarint32 (of_nat (length u + 16)) @ u
              @ EncodeFixed64 (PackSequenceAndType s kValueTypeForSeek)
              @ EncodeFixed64 vt @ behind,
      mv_start = 0,
      mv_kstart = length (EncodeVarint32 (of_nat (length u + 16))),
      mv_end_ptr = length (EncodeVarint32 (of_nat (length u + 16))) + length u + 16\<rparr>"
  by (simp add: MVLookupKey_ctor_def Let_def length_EncodeFixed64)

lemma LookupKey_views_of_shape:
  assumes "k = \<lparr>mem = p @ u @ EncodeFixed64 tag @ behind, start = 0, kstart = length p,
                 end_ptr = length p + length u + 8\<rparr>"
  shows "LookupKey_memtable_key k = p @ u @ EncodeFixed64 tag"
    and "LookupKey_internal_key k = u @ EncodeFixed64 tag"
    and "LookupKey_user_key k = u"
  unfolding assms
  by (simp_all add: LookupKey_memtable_key_def LookupKey_internal_key_def
      LookupKey_user_key_def Slice_def length_EncodeFixed64)

lemma MVLookupKey_views_of_shape:
  assumes "k = \<lparr>mv_mem = p @ u @ EncodeFixed64 tag @ EncodeFixed64 vt @ behind, mv_start = 0,
                 mv_kstart = length p, mv_end_ptr = length p + length u + 16\<rparr>"
  shows "MVLookupKey_memtable_key k = p @ u @ EncodeFixed64 tag @ EncodeFixed64 vt"
    and "MVLookupKey_internal_key k = u @ EncodeFixed64 tag @ EncodeFixed64 vt"
    and "MVLookupKey_user_key k = u"
    and "MVLookupKey_valid_time k = vt"
proof -
  show "MVLookupKey_memtable_key k = p @ u @ EncodeFixed64 tag @ EncodeFixed64 vt"
    and "MVLookupKey_internal_key k = u @ EncodeFixed64 tag @ EncodeFixed64 vt"
    and "MVLookupKey_user_key k = u"
    unfolding assms
    by (simp_all add: MVLookupKey_memtable_key_def MVLookupKey_internal_key_def
        MVLookupKey_user_key_def Slice_def length_EncodeFixed64)
  have "drop (mv_end_ptr k - 8) (mv_mem k) = EncodeFixed64 vt @ behind"
    unfolding assms by (simp add: length_EncodeFixed64)
  then show "MVLookupKey_valid_time k = vt"
    by (simp add: MVLookupKey_valid_time_def DecodeFixed64_EncodeFixed64)
qed

text \<open>
  C7. For every \<open>LookupKey\<close> built from a user key \<open>u\<close> and a sequence \<open>s\<close>, in the inline
  array or in a dynamically sized buffer and whatever the storage holds behind the key:
  the memtable-key view is the varint32 of the internal key's length followed by the
  internal key; the internal-key view is \<open>u\<close> followed by the 8-byte tag; the user-key
  view is \<open>u\<close>, which is the internal-key view without its last 8 bytes. For every
  \<open>MVLookupKey\<close> the user-key view is the internal-key view without its last 16 bytes, and
  the valid time is the integer in the 8 bytes that end the written buffer, the one the
  key was built with.
\<close>

theorem lookup_key_views:
  "LookupKey_memtable_key (LookupKey_ctor space heap u s)
     = EncodeVarint32 (of_nat (length (LookupKey_internal_key (LookupKey_ctor space heap u s))))
       @ LookupKey_internal_key (LookupKey_ctor space heap u s) \<and>
   LookupKey_internal_key (LookupKey_ctor space heap u s)
     = u @ EncodeFixed64 (PackSequenceAndType s kValueTypeForSeek) \<and>
   LookupKey_user_key (LookupKey_ctor space heap u s) = u \<and>
   LookupKey_user_key (LookupKey_ctor space heap u s)
     = take (length (LookupKey_internal_key (LookupKey_ctor space heap u s)) - 8)
         (LookupKey_internal_key (LookupKey_ctor space heap u s)) \<and>
   MVLookupKey_memtable_key (MVLookupKey_ctor space heap u s vt)
     = EncodeVarint32
         (of_nat (length (MVLookupKey_internal_key (MVLookupKey_ctor space heap u s vt))))
       @ MVLookupKey_internal_key (MVLookupKey_ctor space heap u s vt) \<and>
   MVLookupKey_internal_key (MVLookupKey_ctor space heap u s vt)
     = u @ EncodeFixed64 (PackSequenceAndType s kValueTypeForSeek) @ EncodeFixed64 vt \<and>
   MVLookupKey_user_key (MVLookupKey_ctor space heap u s vt) = u \<and>
   MVLookupKey_user_key (MVLookupKey_ctor space heap u s vt)
     = take (length (MVLookupKey_internal_key (MVLookupKey_ctor space heap u s vt)) - 16)
         (MVLookupKey_internal_key (MVLookupKey_ctor space heap u s vt)) \<and>
   MVLookupKey_valid_time (MVLookupKey_ctor space heap u s vt) = vt \<and>
   MVLookupKey_valid_time (MVLookupKey_ctor space heap u s vt)
     = DecodeFixed64
         (drop (length (MVLookupKey_memtable_key (MVLookupKey_ctor space heap u s vt)) - 8)
            (MVLookupKey_memtable_key (MVLookupKey_ctor space heap u s vt)))"
proof -
  let ?tag = "EncodeFixed64 (PackSequenceAndType s kValueTypeForSeek)"
  let ?p = "EncodeVarint32 (of_nat (length u + 8))"
  let ?q = "EncodeVarint32 (of_nat (length u + 16))"
  obtain behind where k: "LookupKey_ctor space heap u s =
     \<lparr>mem = ?p @ u @ ?tag @ behind, start = 0, kstart = length ?p,
      end_ptr = length ?p + length u + 8\<rparr>"
    using LookupKey_ctor_shape [of space heap u s] by blast
  obtain mbehind where mk: "MVLookupKey_ctor space heap u s vt =
     \<lparr>mv_mem = ?q @ u @ ?tag @ EncodeFixed64 vt @ mbehind, mv_start = 0,
      mv_kstart = length ?q, mv_end_ptr = length ?q + length u + 16\<rparr>"
    using MVLookupKey_ctor_shape [of space heap u s vt] by blast
  note v = LookupKey_views_of_shape [OF k]
  note mv = MVLookupKey_views_of_shape [OF mk]
  have l1: "length (u @ ?tag) = length u + 8"
    and l2: "length (u @ ?tag @ EncodeFixed64 vt) = length u + 16"
    by (simp_all add: length_EncodeFixed64)
  have t1: "take (length (u @ ?tag) - 8) (u @ ?tag) = u"
    unfolding l1 by simp
  have t2: "take (length (u @ ?tag @ EncodeFixed64 vt) - 16) (u @ ?tag @ EncodeFixed64 vt) = u"
    unfolding l2 by simp
  have l3: "length (?q @ u @ ?tag @ EncodeFixed64 vt) - 8 = length (?q @ u @ ?tag)"
    by (simp add: length_EncodeFixed64)
  have "drop (length (?q @ u @ ?tag @ EncodeFixed64 vt) - 8) (?q @ u @ ?tag @ EncodeFixed64 vt)
      = EncodeFixed64 vt"
    unfolding l3 using append_eq_conv_conj [of "?q @ u @ ?tag" "EncodeFixed64 vt"] by simp
  then have last8: "DecodeFixed64
      (drop (length (?q @ u @ ?tag @ EncodeFixed64 vt) - 8) (?q @ u @ ?tag @ EncodeFixed64 vt))
      = vt"
    by (simp only: DecodeFixed64_EncodeFixed64_only)
  show ?thesis
    unfolding v mv t1 t2 l1 l2 last8 by simp
qed

text \<open>
  The third concrete example of the spec, in the inline array: the array keeps its 200
  bytes, twelve of them written, and the memtable-key view is the varint of 11 followed
  by \<open>"xyz"\<close> and the tag.
\<close>

lemma lookup_key_example:
  "length (mem (LookupKey_ctor space heap (map of_char ''xyz'') 3)) = 200 \<and>
   LookupKey_memtable_key (LookupKey_ctor space heap (map of_char ''xyz'') 3)
     = [11] @ map of_char ''xyz'' @ EncodeFixed64 (PackSequenceAndType 3 kValueTypeForSeek)"
proof -
  have "EncodeVarint32 11 = [11]"
    by (simp add: EncodeVarint32_def word_less_nat_alt)
  then show ?thesis
    by (simp add: LookupKey_memtable_key_def LookupKey_ctor_def Let_def Slice_def
        length_EncodeFixed64 space_size_def)
qed

section \<open>The filter adapter\<close>







section \<open>The invariant of the owning key types\<close>

lemma well_formed_internal_key_iff:
  "well_formed_internal_key b \<longleftrightarrow>
     8 \<le> length b \<and> tag_type (DecodeFixed64 (drop (length b - 8) b)) \<le> kTypeValue"
proof (cases "8 \<le> length b")
  case True
  then show ?thesis
    by (simp add: well_formed_internal_key_def ParseInternalKey_long)
next
  case False
  then show ?thesis
    by (simp add: well_formed_internal_key_def ParseInternalKey_short)
qed

lemma well_formed_mv_internal_key_iff:
  "well_formed_mv_internal_key b \<longleftrightarrow>
     16 \<le> length b \<and> tag_type (DecodeFixed64 (drop (length b - 16) b)) \<le> kTypeValue"
proof (cases "16 \<le> length b")
  case True
  then show ?thesis
    by (simp add: well_formed_mv_internal_key_def ParseMVInternalKey_long)
next
  case False
  then show ?thesis
    by (simp add: well_formed_mv_internal_key_def ParseMVInternalKey_short)
qed

lemma well_formed_AppendInternalKey:
  "type p \<le> kTypeValue \<Longrightarrow> well_formed_internal_key (AppendInternalKey [] p)"
  by (simp add: well_formed_internal_key_def AppendInternalKey_def ParseInternalKey_encoded
      tag_type_Pack)

lemma well_formed_AppendMVInternalKey:
  "type p \<le> kTypeValue \<Longrightarrow> well_formed_mv_internal_key (AppendMVInternalKey [] p)"
  by (simp add: well_formed_mv_internal_key_def AppendMVInternalKey_def
      ParseMVInternalKey_encoded tag_type_Pack)

lemma DecodeFixed64_drop_take:
  assumes "a + 8 \<le> n"
  shows "DecodeFixed64 (drop a (take n s)) = DecodeFixed64 (drop a s)"
proof -
  have "take 8 (drop a (take n s)) = take 8 (drop a s)"
    using assms by (simp add: drop_take min_def)
  then show ?thesis
    by (simp add: DecodeFixed64_def)
qed

lemma well_formed_without_valid_time:
  assumes "well_formed_mv_internal_key s"
  shows "well_formed_internal_key (take (length s - 8) s)"
proof -
  from assms have len: "16 \<le> length s"
    and ty: "tag_type (DecodeFixed64 (drop (length s - 16) s)) \<le> kTypeValue"
    by (simp_all add: well_formed_mv_internal_key_iff)
  let ?b = "take (length s - 8) s"
  have lb: "length ?b = length s - 8"
    by simp
  have off: "length ?b - 8 = length s - 16"
    using len by simp
  have "DecodeFixed64 (drop (length s - 16) ?b) = DecodeFixed64 (drop (length s - 16) s)"
    using len by (intro DecodeFixed64_drop_take) simp
  then have "tag_type (DecodeFixed64 (drop (length ?b - 8) ?b)) \<le> kTypeValue"
    unfolding off using ty by simp
  moreover have "8 \<le> length ?b"
    using len by simp
  ultimately show ?thesis
    unfolding well_formed_internal_key_iff [of ?b] by blast
qed

lemma InternalKey_step_invariant:
  assumes "InternalKey_op_ok op"
  shows "\<exists>k'. InternalKey_step op k = Some k' \<and> InternalKey_invariant k'"
proof (cases op)
  case (OpDecodeFrom s)
  with assms show ?thesis
    by (auto simp: InternalKey_DecodeFrom_def InternalKey_invariant_def
        well_formed_internal_key_iff)
next
  case (OpDecodeFromMV s)
  with assms consider "length s = 8" | "well_formed_mv_internal_key s"
    by auto
  then show ?thesis
  proof cases
    case 1
    then show ?thesis
      using OpDecodeFromMV by (simp add: InternalKey_DecodeFromMV_def InternalKey_invariant_def)
  next
    case 2
    then have "16 \<le> length s"
      by (simp add: well_formed_mv_internal_key_iff)
    then have "\<not> length s < 8" and "8 \<le> length s - 8"
      by simp_all
    moreover have "well_formed_internal_key (take (length s - 8) s)"
      using 2 by (rule well_formed_without_valid_time)
    ultimately show ?thesis
      using OpDecodeFromMV
      by (simp add: InternalKey_DecodeFromMV_def InternalKey_invariant_def)
  qed
next
  case (OpSetFrom p)
  with assms have "well_formed_internal_key (AppendInternalKey [] p)"
    by (simp add: well_formed_AppendInternalKey)
  then show ?thesis
    using OpSetFrom
    by (simp add: InternalKey_SetFrom_def InternalKey_invariant_def well_formed_internal_key_iff)
next
  case OpClear
  then show ?thesis
    by (simp add: InternalKey_Clear_def InternalKey_invariant_def)
qed

lemma InternalKey_run_invariant:
  assumes "InternalKey_invariant k" and "list_all InternalKey_op_ok ops"
  shows "\<exists>k'. InternalKey_run ops k = Some k' \<and> InternalKey_invariant k'"
  using assms
proof (induction ops arbitrary: k)
  case Nil
  then show ?case by simp
next
  case (Cons op ops)
  then obtain k1 where "InternalKey_step op k = Some k1" "InternalKey_invariant k1"
    using InternalKey_step_invariant [of op k] by auto
  with Cons show ?case by simp
qed

lemma MVInternalKey_step_invariant:
  assumes "MVInternalKey_op_ok op"
  shows "MVInternalKey_invariant (MVInternalKey_step op k)"
proof (cases op)
  case (MVOpDecodeFrom s)
  with assms show ?thesis
    by (auto simp: MVInternalKey_DecodeFrom_def MVInternalKey_invariant_def
        well_formed_mv_internal_key_iff)
next
  case (MVOpSetFrom p)
  with assms have "well_formed_mv_internal_key (AppendMVInternalKey [] p)"
    by (simp add: well_formed_AppendMVInternalKey)
  then show ?thesis
    using MVOpSetFrom
    by (simp add: MVInternalKey_SetFrom_def MVInternalKey_invariant_def
        well_formed_mv_internal_key_iff)
next
  case MVOpClear
  then show ?thesis
    by (simp add: MVInternalKey_Clear_def MVInternalKey_invariant_def)
qed

lemma MVInternalKey_run_invariant:
  assumes "MVInternalKey_invariant k" and "list_all MVInternalKey_op_ok ops"
  shows "MVInternalKey_invariant (MVInternalKey_run ops k)"
  using assms
  by (induction ops arbitrary: k) (simp_all add: MVInternalKey_step_invariant)

text \<open>
  C4 as it is worded, at an empty \<open>InternalKey\<close> on which \<open>DecodeFrom\<close> is called with
  the one-byte slice \<open>"a"\<close>: the call reports success, and the buffer then holds one byte. It is neither
  empty nor an encoded key of at least 8 bytes.
\<close>

theorem owning_key_invariant_counterexample:
  "fst (InternalKey_DecodeFrom (map of_char ''a'') InternalKey_empty) \<and>
   InternalKey_run [OpDecodeFrom (map of_char ''a'')] InternalKey_empty
     = Some \<lparr>rep = map of_char ''a''\<rparr> \<and>
   \<not> InternalKey_invariant \<lparr>rep = map of_char ''a''\<rparr>"
  by (simp add: InternalKey_DecodeFrom_def InternalKey_empty_def InternalKey_invariant_def)

text \<open>
  C4, amended. An owning key built empty, or from a parsed key whose type is one of the two
  enumerators, satisfies the invariant: its buffer is empty or a well-formed encoded key
  of at least 8 bytes (16 for \<open>MVInternalKey\<close>). \<open>SetFrom\<close> with such a parsed key and
  \<open>Clear\<close> establish it. \<open>DecodeFrom\<close> stores its argument unchecked, so it establishes
  the invariant when the argument is itself empty or a well-formed encoded key of the
  object's layout; \<open>DecodeFromMV\<close> stores its argument without the last 8 bytes, so it
  establishes the invariant when the argument is a well-formed multi-version key (or has
  exactly 8 bytes, leaving the buffer empty). Every sequence of such calls has a result,
  and the result satisfies the invariant.
\<close>

theorem owning_key_invariant:
  "InternalKey_invariant InternalKey_empty \<and>
   (t \<le> kTypeValue \<longrightarrow> InternalKey_invariant (InternalKey_ctor u s t)) \<and>
   (InternalKey_invariant k \<and> list_all InternalKey_op_ok ops \<longrightarrow>
      (\<exists>k'. InternalKey_run ops k = Some k' \<and> InternalKey_invariant k')) \<and>
   MVInternalKey_invariant MVInternalKey_empty \<and>
   (t \<le> kTypeValue \<longrightarrow> MVInternalKey_invariant (MVInternalKey_ctor u s t vt)) \<and>
   (MVInternalKey_invariant mk \<and> list_all MVInternalKey_op_ok mops \<longrightarrow>
      MVInternalKey_invariant (MVInternalKey_run mops mk))"
proof -
  have e: "InternalKey_invariant InternalKey_empty"
    by (simp add: InternalKey_invariant_def InternalKey_empty_def)
  have me: "MVInternalKey_invariant MVInternalKey_empty"
    by (simp add: MVInternalKey_invariant_def MVInternalKey_empty_def)
  have c: "InternalKey_invariant (InternalKey_ctor u s t)" if "t \<le> kTypeValue"
    using well_formed_AppendInternalKey [of "\<lparr>user_key = u, sequence = s, type = t\<rparr>"] that
    by (simp add: InternalKey_invariant_def InternalKey_ctor_def well_formed_internal_key_iff)
  have mc: "MVInternalKey_invariant (MVInternalKey_ctor u s t vt)" if "t \<le> kTypeValue"
    using well_formed_AppendMVInternalKey
      [of "\<lparr>user_key = u, sequence = s, type = t, valid_time = vt\<rparr>"] that
    by (simp add: MVInternalKey_invariant_def MVInternalKey_ctor_def
        well_formed_mv_internal_key_iff)
  show ?thesis
    using e me c mc InternalKey_run_invariant [of k ops] MVInternalKey_run_invariant [of mk mops]
    by blast
qed

theorem owning_key_invariant_witness:
  "InternalKey_invariant InternalKey_empty \<and>
   list_all InternalKey_op_ok
     [OpClear,
      OpSetFrom \<lparr>user_key = map of_char ''abc'', sequence = 5, type = kTypeValue\<rparr>,
      OpDecodeFromMV (AppendMVInternalKey []
        \<lparr>user_key = map of_char ''k'', sequence = 10, type = kTypeDeletion, valid_time = 42\<rparr>)] \<and>
   InternalKey_run
     [OpClear,
      OpSetFrom \<lparr>user_key = map of_char ''abc'', sequence = 5, type = kTypeValue\<rparr>,
      OpDecodeFromMV (AppendMVInternalKey []
        \<lparr>user_key = map of_char ''k'', sequence = 10, type = kTypeDeletion, valid_time = 42\<rparr>)]
     InternalKey_empty
     = Some \<lparr>rep = map of_char ''k'' @ EncodeFixed64 2560\<rparr> \<and>
   InternalKey_invariant \<lparr>rep = map of_char ''k'' @ EncodeFixed64 2560\<rparr> \<and>
   InternalKey_invariant (InternalKey_ctor (map of_char ''abc'') 5 kTypeValue) \<and>
   MVInternalKey_invariant (MVInternalKey_ctor (map of_char ''abc'') 5 kTypeValue 42) \<and>
   MVInternalKey_invariant
     (MVInternalKey_run
        [MVOpClear,
         MVOpSetFrom
           \<lparr>user_key = map of_char ''k'', sequence = 10, type = kTypeDeletion, valid_time = 42\<rparr>]
        MVInternalKey_empty)"
proof -
  let ?p = "\<lparr>user_key = map of_char ''abc'', sequence = 5, type = kTypeValue\<rparr>"
  let ?mp = "\<lparr>user_key = map of_char ''k'', sequence = 10, type = kTypeDeletion, valid_time = 42\<rparr>"
  let ?ops = "[OpClear, OpSetFrom ?p, OpDecodeFromMV (AppendMVInternalKey [] ?mp)]"
  let ?mops = "[MVOpClear, MVOpSetFrom ?mp]"
  have del: "kTypeDeletion \<le> kTypeValue"
    by (simp add: kTypeDeletion_def)
  have val: "kTypeValue \<le> kTypeValue"
    by simp
  have wf: "well_formed_mv_internal_key (AppendMVInternalKey [] ?mp)"
    using del by (intro well_formed_AppendMVInternalKey) simp
  have ok: "list_all InternalKey_op_ok ?ops"
    using wf by simp
  have mok: "list_all MVInternalKey_op_ok ?mops"
    using del by simp
  define mv where "mv = AppendMVInternalKey [] ?mp"
  have len: "\<not> length mv < 8"
    and cut: "take (length mv - 8) mv = map of_char ''k'' @ EncodeFixed64 2560"
    unfolding mv_def
    by (simp_all add: AppendMVInternalKey_def Pack_10_Deletion length_EncodeFixed64)
  have "InternalKey_run [OpClear, OpSetFrom ?p, OpDecodeFromMV mv] InternalKey_empty
      = Some \<lparr>rep = take (length mv - 8) mv\<rparr>"
    using len
    by (simp add: InternalKey_Clear_def InternalKey_SetFrom_def InternalKey_DecodeFromMV_def
        InternalKey_empty_def)
  then have "InternalKey_run [OpClear, OpSetFrom ?p, OpDecodeFromMV mv] InternalKey_empty
      = Some \<lparr>rep = map of_char ''k'' @ EncodeFixed64 2560\<rparr>"
    by (simp only: cut)
  then have run: "InternalKey_run ?ops InternalKey_empty
      = Some \<lparr>rep = map of_char ''k'' @ EncodeFixed64 2560\<rparr>"
    by (simp only: mv_def)
  note inst = owning_key_invariant
    [of kTypeValue "map of_char ''abc''" 5 InternalKey_empty ?ops 42 MVInternalKey_empty ?mops]
  have e: "InternalKey_invariant InternalKey_empty"
    using inst by blast
  have "\<exists>k'. InternalKey_run ?ops InternalKey_empty = Some k' \<and> InternalKey_invariant k'"
    using inst ok by blast
  then have inv: "InternalKey_invariant \<lparr>rep = map of_char ''k'' @ EncodeFixed64 2560\<rparr>"
    unfolding run by simp
  have c: "InternalKey_invariant (InternalKey_ctor (map of_char ''abc'') 5 kTypeValue)"
    and mc: "MVInternalKey_invariant (MVInternalKey_ctor (map of_char ''abc'') 5 kTypeValue 42)"
    using inst val by blast+
  have m: "MVInternalKey_invariant (MVInternalKey_run ?mops MVInternalKey_empty)"
    using inst mok by blast
  show ?thesis
    using e ok run inv c mc m by blast
qed

section \<open>What the decode methods of the owning keys copy\<close>



end
